theory Spec2Isabelle
  imports Main
begin

section \<open>Configuration (src/config/config.ts)\<close>

text \<open>The storage key names of \<^verbatim>\<open>Config.STORAGE_KEYS\<close>.\<close>

definition ACCESS_TOKEN :: string where
  "ACCESS_TOKEN = ''access_token''"

definition REFRESH_TOKEN :: string where
  "REFRESH_TOKEN = ''refresh_token''"

definition USER_EMAIL :: string where
  "USER_EMAIL = ''userEmail''"

definition REMEMBER_ME :: string where
  "REMEMBER_ME = ''rememberMe''"

section \<open>Requests, errors and the credential store\<close>

text \<open>
  An Axios request configuration, reduced to what \<^verbatim>\<open>src/services/authService.ts\<close> reads
  or writes: the headers object (which may be undefined) and the one-shot \<^verbatim>\<open>_retry\<close>
  marker (an absent marker is \<open>False\<close>).
\<close>

record request_config =
  url :: string
  headers :: "(string \<rightharpoonup> string) option"
  retry :: bool

text \<open>
  A rejection value. An \<^verbatim>\<open>AxiosError\<close> carries \<^verbatim>\<open>response?.status\<close> (absent for a timeout
  or a network failure) and the configuration of the failed request; a storage failure is
  a plain error with neither.
\<close>

datatype error = AxiosError "nat option" request_config | StorageError string

text \<open>
  Modelled from the spec: the credential store. AsyncStorage is a library outside the
  repository; the spec gives its interface (get by key, set many, remove many) as a
  key-value store of strings whose operations return promises. Whether a promise rejects
  is for the environment to choose: it is the fault argument. A failed operation leaves
  the store as it was.
\<close>

type_synonym storage = "string \<rightharpoonup> string"

definition getItem :: "error option \<Rightarrow> storage \<Rightarrow> string \<Rightarrow> error + string option" where
  "getItem fault s k = (case fault of Some e \<Rightarrow> Inl e | None \<Rightarrow> Inr (s k))"

definition multiSet :: "error option \<Rightarrow> (string \<times> string) list \<Rightarrow> storage \<Rightarrow> error + storage" where
  "multiSet fault kvs s =
     (case fault of Some e \<Rightarrow> Inl e | None \<Rightarrow> Inr (fold (\<lambda>(k, v) m. m(k \<mapsto> v)) kvs s))"

definition multiRemove :: "error option \<Rightarrow> string list \<Rightarrow> storage \<Rightarrow> error + storage" where
  "multiRemove fault ks s =
     (case fault of Some e \<Rightarrow> Inl e | None \<Rightarrow> Inr (fold (\<lambda>k m. m(k := None)) ks s))"

text \<open>The template literal \<^verbatim>\<open>`Bearer ${token}`\<close>; a null token prints as the four letters.\<close>

definition template :: "string option \<Rightarrow> string" where
  "template v = (case v of None \<Rightarrow> ''null'' | Some s \<Rightarrow> s)"

definition bearer :: "string option \<Rightarrow> string" where
  "bearer token = ''Bearer '' @ template token"


section \<open>Module state (authService.ts, lines 17 to 26)\<close>

text \<open>What \<^verbatim>\<open>processQueue\<close> does to one queued promise.\<close>

datatype settlement = Resolve "string option" | Reject error

text \<open>
  The module variables \<^verbatim>\<open>isRefreshing\<close> and \<^verbatim>\<open>failedQueue\<close>, the store, the default
  Authorization header of the \<^verbatim>\<open>api\<close> instance, and two logs of effects on the outside:
  the bodies of the POSTs to \<^verbatim>\<open>/refresh\<close> issued so far, and the calls made to the
  resolve and reject functions of queued promises. A queue entry is the
  \<^verbatim>\<open>{resolve, reject}\<close> pair of one waiting promise; it is identified with the request
  configuration its \<^verbatim>\<open>then\<close> callback closes over.
\<close>

record state =
  store :: storage
  isRefreshing :: bool
  failedQueue :: "request_config list"
  defaultAuth :: "string option"
  refreshPosts :: "string option list"
  notified :: "(request_config \<times> settlement) list"

definition processQueue :: "error option \<Rightarrow> string option \<Rightarrow> state \<Rightarrow> state" where
  "processQueue err token st =
     st\<lparr>notified := notified st @
           map (\<lambda>prom. (prom, case err of Some e \<Rightarrow> Reject e | None \<Rightarrow> Resolve token))
             (failedQueue st),
        failedQueue := []\<rparr>"

section \<open>Request interceptor (lines 39 to 51)\<close>




section \<open>Response interceptor (lines 56 to 96)\<close>

datatype client = Api | Axios

text \<open>How the promise returned to one caller ends: with a rejection, or with the promise
  of the request issued again through \<^verbatim>\<open>api\<close> or through the global \<^verbatim>\<open>axios\<close>.\<close>

datatype outcome = Rejected error | Retried client request_config

text \<open>The \<^verbatim>\<open>then\<close> callback of a queued promise (lines 64 to 69), and where a settlement
  leads the caller of that promise.\<close>

definition waiterThen :: "request_config \<Rightarrow> string option \<Rightarrow> request_config" where
  "waiterThen originalRequest token =
     (case headers originalRequest of
        Some h \<Rightarrow> originalRequest\<lparr>headers := Some (h(''Authorization'' \<mapsto> bearer token))\<rparr>
      | None \<Rightarrow> originalRequest)"

fun waiterOutcome :: "request_config \<times> settlement \<Rightarrow> outcome" where
  "waiterOutcome (originalRequest, Resolve token) = Retried Axios (waiterThen originalRequest token)"
| "waiterOutcome (originalRequest, Reject e) = Rejected e"

text \<open>
  The error handler up to its first suspension point (lines 58 to 73): it rejects with
  the error it was given, or queues the caller, or sets the marker and the flag and goes
  on to read the refresh token. An error without a response, or without the status 401,
  never reaches the test of the marker.
\<close>

datatype handler_result = Propagate error | Queued | Refreshing request_config

definition onRejected :: "error \<Rightarrow> state \<Rightarrow> handler_result \<times> state" where
  "onRejected err st =
     (case err of
        AxiosError status originalRequest \<Rightarrow>
          if status = Some 401 \<and> \<not> retry originalRequest then
            if isRefreshing st
            then (Queued, st\<lparr>failedQueue := failedQueue st @ [originalRequest]\<rparr>)
            else (Refreshing (originalRequest\<lparr>retry := True\<rparr>), st\<lparr>isRefreshing := True\<rparr>)
          else (Propagate err, st)
      | StorageError m \<Rightarrow> (Propagate err, st))"

text \<open>
  The refresh branch (lines 75 to 92) is suspended at each \<^verbatim>\<open>await\<close>; a phase is the
  point it waits at, with the local variables that are live there: the read of the
  refresh token, the POST to \<^verbatim>\<open>/refresh\<close>, the write of the new tokens, and in the
  \<^verbatim>\<open>catch\<close> block the removal of the tokens.
\<close>

datatype phase =
    AwaitRead request_config
  | AwaitPost request_config
  | AwaitSet request_config string string
  | AwaitRemove error
  | Returned outcome

text \<open>What the awaited operation answers: a storage operation completes or fails, the
  POST to \<^verbatim>\<open>/refresh\<close> fails or returns an access and a refresh token.\<close>

datatype reply = Storage "error option" | Http "error + string \<times> string"

text \<open>
  \<open>resume\<close> runs the branch from one suspension point to the next, or to its return.
  The \<^verbatim>\<open>catch\<close> block empties the queue before it awaits the removal; the
  \<^verbatim>\<open>finally\<close> block runs on every way out, after the \<^verbatim>\<open>return\<close> of either block.
  An answer that is not the one the phase waits for leaves everything as it is.
\<close>

definition finallyBlock :: "state \<Rightarrow> state" where
  "finallyBlock st = st\<lparr>isRefreshing := False\<rparr>"

definition catchBlock :: "error \<Rightarrow> state \<Rightarrow> phase \<times> state" where
  "catchBlock err st = (AwaitRemove err, processQueue (Some err) None st)"

fun resume :: "reply \<Rightarrow> phase \<Rightarrow> state \<Rightarrow> phase \<times> state" where
  "resume (Storage fault) (AwaitRead originalRequest) st =
     (case getItem fault (store st) REFRESH_TOKEN of
        Inl err \<Rightarrow> catchBlock err st
      | Inr refreshToken \<Rightarrow>
          (AwaitPost originalRequest, st\<lparr>refreshPosts := refreshPosts st @ [refreshToken]\<rparr>))"
| "resume (Http (Inl err)) (AwaitPost originalRequest) st = catchBlock err st"
| "resume (Http (Inr (accessToken, refreshToken))) (AwaitPost originalRequest) st =
     (AwaitSet originalRequest accessToken refreshToken, st)"
| "resume (Storage fault) (AwaitSet originalRequest accessToken refreshToken) st =
     (case multiSet fault [(ACCESS_TOKEN, accessToken), (REFRESH_TOKEN, refreshToken)] (store st) of
        Inl err \<Rightarrow> catchBlock err st
      | Inr s \<Rightarrow>
          (Returned (Retried Api originalRequest),
           finallyBlock
             (processQueue None (Some accessToken)
                (st\<lparr>store := s, defaultAuth := Some (bearer (Some accessToken))\<rparr>))))"
| "resume (Storage fault) (AwaitRemove err) st =
     (case multiRemove fault [ACCESS_TOKEN, REFRESH_TOKEN] (store st) of
        Inl err' \<Rightarrow> (Returned (Rejected err'), finallyBlock st)
      | Inr s \<Rightarrow> (Returned (Rejected err), finallyBlock (st\<lparr>store := s\<rparr>)))"
| "resume r ph st = (ph, st)"

subsection \<open>The refresh branch run to its end\<close>

text \<open>
  The answers the environment gives to the four operations the branch may await: the read
  of the refresh token, the POST to \<^verbatim>\<open>/refresh\<close>, the write of the new tokens, the removal
  of the tokens in the \<^verbatim>\<open>catch\<close> block.
\<close>

record env =
  readFault :: "error option"
  refreshReply :: "error + string \<times> string"
  writeFault :: "error option"
  removeFault :: "error option"

fun replyFor :: "env \<Rightarrow> phase \<Rightarrow> reply" where
  "replyFor e (AwaitRead c) = Storage (readFault e)"
| "replyFor e (AwaitPost c) = Http (refreshReply e)"
| "replyFor e (AwaitSet c a r) = Storage (writeFault e)"
| "replyFor e (AwaitRemove err) = Storage (removeFault e)"
| "replyFor e (Returned out) = Storage None"

definition advance :: "env \<Rightarrow> phase \<times> state \<Rightarrow> phase \<times> state" where
  "advance e ps = resume (replyFor e (fst ps)) (fst ps) (snd ps)"

text \<open>No path of the branch awaits more than four times.\<close>

definition refreshBranch :: "env \<Rightarrow> request_config \<Rightarrow> state \<Rightarrow> phase \<times> state" where
  "refreshBranch e originalRequest st =
     advance e (advance e (advance e (advance e (AwaitRead originalRequest, st))))"

subsection \<open>Interleaved handlers\<close>

text \<open>
  On the single-threaded event loop a run is a sequence of events: a response error
  reaches the interceptor, or a suspended refresh branch is resumed with the answer it
  waits for. The pool holds the branches started so far.
\<close>

datatype event = Response error | Resume nat reply

record sys =
  mem :: state
  pool :: "phase list"

definition exec :: "event \<Rightarrow> sys \<Rightarrow> sys" where
  "exec ev s =
     (case ev of
        Response err \<Rightarrow>
          (case onRejected err (mem s) of
             (Refreshing originalRequest, st) \<Rightarrow>
               \<lparr>mem = st, pool = pool s @ [AwaitRead originalRequest]\<rparr>
           | (r, st) \<Rightarrow> s\<lparr>mem := st\<rparr>)
      | Resume i r \<Rightarrow>
          if i < length (pool s)
          then (case resume r (pool s ! i) (mem s) of
                  (ph, st) \<Rightarrow> \<lparr>mem = st, pool = (pool s)[i := ph]\<rparr>)
          else s)"

definition run :: "event list \<Rightarrow> sys \<Rightarrow> sys" where
  "run evs s = fold exec evs s"

text \<open>A 401 response for the request \<open>c\<close> reaches the interceptor.\<close>

definition unauthorized :: "request_config \<Rightarrow> event" where
  "unauthorized c = Response (AxiosError (Some 401) c)"

text \<open>A branch is in flight until it has returned.\<close>

definition suspended :: "phase \<Rightarrow> bool" where
  "suspended ph = (case ph of Returned out \<Rightarrow> False | _ \<Rightarrow> True)"

definition inFlight :: "sys \<Rightarrow> nat" where
  "inFlight s = length (filter suspended (pool s))"

definition singleFlight :: "sys \<Rightarrow> bool" where
  "singleFlight s = (inFlight s = (if isRefreshing (mem s) then 1 else 0))"

text \<open>A branch that still waits for its read of the refresh token has issued no POST.\<close>

definition reading :: "phase \<Rightarrow> bool" where
  "reading ph = (case ph of AwaitRead c \<Rightarrow> True | _ \<Rightarrow> False)"

text \<open>A 401 for a request that has not been retried: the errors the handler acts on.\<close>

definition fresh401 :: "error \<Rightarrow> bool" where
  "fresh401 err =
     (case err of
        AxiosError status originalRequest \<Rightarrow> status = Some 401 \<and> \<not> retry originalRequest
      | StorageError m \<Rightarrow> False)"

text \<open>Every such 401 of the run reaches the interceptor while the flag is set.\<close>

fun observedWhileSet :: "event list \<Rightarrow> sys \<Rightarrow> bool" where
  "observedWhileSet [] s = True"
| "observedWhileSet (Response err # evs) s =
     ((isRefreshing (mem s) \<or> \<not> fresh401 err) \<and> observedWhileSet evs (exec (Response err) s))"
| "observedWhileSet (Resume i r # evs) s = observedWhileSet evs (exec (Resume i r) s)"

section \<open>Session facade\<close>

record user_profile =
  user_id :: string
  email :: string
  first_name :: string
  last_name :: string
  full_name :: string
  roles :: "string list"

record auth_response =
  access_token :: string
  refresh_token :: string
  jti :: string
  user :: user_profile

record login_dto =
  login_email :: string
  password :: string

text \<open>
  \<^verbatim>\<open>api.post\<close> is awaited as a whole. The environment gives what the caller can observe
  of the exchange: the events that reach the response interceptor meanwhile (those of
  this request and of any other request under way), and how the promise ends: settled
  with a result, or not settled at all (\<open>None\<close>), as when the response interceptor has
  queued the request and its promise is neither resolved nor rejected. A caller whose
  awaited promise does not settle does not go on: its own promise stays pending.
\<close>

type_synonym 'a exchange = "event list \<times> (error + 'a) option"

definition login ::
  "(login_dto \<Rightarrow> auth_response exchange) \<Rightarrow> error option \<Rightarrow> login_dto \<Rightarrow> sys \<Rightarrow>
     (error + auth_response) option \<times> sys" where
  "login apiPost fault data s =
     (case apiPost data of
        (during, posted) \<Rightarrow>
          let s1 = run during s
          in (case posted of
                None \<Rightarrow> (None, s1)
              | Some (Inl e) \<Rightarrow> (Some (Inl e), s1)
              | Some (Inr response) \<Rightarrow>
                  (case multiSet fault
                          [(ACCESS_TOKEN, access_token response),
                           (REFRESH_TOKEN, refresh_token response)]
                          (store (mem s1)) of
                     Inl e \<Rightarrow> (Some (Inl e), s1)
                   | Inr st \<Rightarrow> (Some (Inr response), s1\<lparr>mem := (mem s1)\<lparr>store := st\<rparr>\<rparr>))))"

definition logoutRequest :: "string option \<Rightarrow> request_config" where
  "logoutRequest token =
     \<lparr>url = ''/logout'', headers = Some [''Authorization'' \<mapsto> bearer token], retry = False\<rparr>"

text \<open>The result of a settled POST is dropped: the \<^verbatim>\<open>catch\<close> block is empty.\<close>

definition logout ::
  "(request_config \<Rightarrow> 'a exchange) \<Rightarrow> error option \<Rightarrow> error option \<Rightarrow> sys \<Rightarrow>
     (error + unit) option \<times> sys" where
  "logout apiPost tokenRead removal s =
     (case getItem tokenRead (store (mem s)) ACCESS_TOKEN of
        Inl e \<Rightarrow> (Some (Inl e), s)
      | Inr token \<Rightarrow>
          (case apiPost (logoutRequest token) of
             (during, posted) \<Rightarrow>
               let s1 = run during s
               in (case posted of
                     None \<Rightarrow> (None, s1)
                   | Some result \<Rightarrow>
                       (case multiRemove removal [ACCESS_TOKEN, REFRESH_TOKEN]
                               (store (mem s1)) of
                          Inl e \<Rightarrow> (Some (Inl e), s1)
                        | Inr st \<Rightarrow> (Some (Inr ()), s1\<lparr>mem := (mem s1)\<lparr>store := st\<rparr>\<rparr>)))))"

section \<open>Example inputs\<close>

definition reqA :: request_config where
  "reqA = \<lparr>url = ''/me'', headers = Some Map.empty, retry = False\<rparr>"

definition reqB :: request_config where
  "reqB = \<lparr>url = ''/portfolio'', headers = None, retry = False\<rparr>"

definition reqD :: request_config where
  "reqD = \<lparr>url = ''/wallet'', headers = Some [''Authorization'' \<mapsto> ''Bearer A0''], retry = False\<rparr>"

definition reqC :: request_config where
  "reqC = \<lparr>url = ''/kyc'', headers = Some [''Accept'' \<mapsto> ''application/json''], retry = False\<rparr>"

text \<open>A signed-in session with a remembered e-mail, no refresh under way.\<close>

definition session :: state where
  "session =
     \<lparr>store = [ACCESS_TOKEN \<mapsto> ''A1'', REFRESH_TOKEN \<mapsto> ''R1'',
               USER_EMAIL \<mapsto> ''a@b.com'', REMEMBER_ME \<mapsto> ''true''],
      isRefreshing = False, failedQueue = [], defaultAuth = None,
      refreshPosts = [], notified = []\<rparr>"

text \<open>The same session while a refresh is under way and two callers wait in the queue.\<close>

definition waiting :: state where
  "waiting = session\<lparr>isRefreshing := True, failedQueue := [reqB, reqC]\<rparr>"

definition idleSys :: sys where
  "idleSys = \<lparr>mem = session, pool = []\<rparr>"

definition expired :: error where
  "expired = AxiosError (Some 401) \<lparr>url = ''/refresh'', headers = None, retry = False\<rparr>"

definition diskError :: error where
  "diskError = StorageError ''disk''"

text \<open>Environments of the refresh branch: the refresh is granted, the refresh is refused,
  each with a store that works or a store whose write or removal fails.\<close>

definition granted :: env where
  "granted = \<lparr>readFault = None, refreshReply = Inr (''A2'', ''R2''),
               writeFault = None, removeFault = None\<rparr>"

definition grantedWriteFails :: env where
  "grantedWriteFails = granted\<lparr>writeFault := Some diskError\<rparr>"

definition refused :: env where
  "refused = \<lparr>readFault = None, refreshReply = Inl expired,
               writeFault = None, removeFault = None\<rparr>"

text \<open>Exchanges for the facade: a backend that cannot be reached; a backend that answers
  401, after which the interceptor runs the refresh branch and the refresh is refused;
  a request whose 401 arrives while the \<^verbatim>\<open>catch\<close> block of another request's refused
  refresh awaits the removal of the tokens, and whose promise does not settle; and a
  login endpoint that accepts.\<close>

definition unreachable :: "request_config \<Rightarrow> unit exchange" where
  "unreachable cfg = ([Response (AxiosError None cfg)], Some (Inl (AxiosError None cfg)))"

definition answers401 :: "request_config \<Rightarrow> unit exchange" where
  "answers401 cfg =
     ([unauthorized cfg, Resume 0 (Storage None), Resume 0 (Http (Inl expired)),
       Resume 0 (Storage None)],
      Some (Inl expired))"

definition stranded :: "request_config \<Rightarrow> unit exchange" where
  "stranded cfg =
     ([unauthorized reqA, Resume 0 (Storage None), Resume 0 (Http (Inl expired)),
       unauthorized cfg, Resume 0 (Storage None)],
      None)"

definition payload :: auth_response where
  "payload =
     \<lparr>access_token = ''A9'', refresh_token = ''R9'', jti = ''j1'',
      user = \<lparr>user_id = ''u1'', email = ''a@b.com'', first_name = ''A'', last_name = ''B'',
              full_name = ''A B'', roles = [''investor'']\<rparr>\<rparr>"

definition accepts :: "login_dto \<Rightarrow> auth_response exchange" where
  "accepts data = ([], Some (Inr payload))"

definition credentials :: login_dto where
  "credentials = \<lparr>login_email = ''a@b.com'', password = ''secret1''\<rparr>"



section \<open>Basic facts\<close>

lemmas branch_defs = refreshBranch_def advance_def getItem_def multiSet_def multiRemove_def
  catchBlock_def finallyBlock_def processQueue_def

lemmas example_defs = reqA_def reqB_def reqC_def reqD_def session_def waiting_def idleSys_def
  expired_def diskError_def granted_def grantedWriteFails_def refused_def
  ACCESS_TOKEN_def REFRESH_TOKEN_def USER_EMAIL_def REMEMBER_ME_def

lemma run_Nil: "run [] s = s"
  by (simp add: run_def)

lemma run_Cons: "run (ev # evs) s = run evs (exec ev s)"
  by (simp add: run_def)

lemma run_append: "run (evs @ evs') s = run evs' (run evs s)"
  by (simp add: run_def)

lemma resume_Returned: "resume r (Returned out) st = (Returned out, st)"
  by (cases r) simp_all

subsection \<open>The branch run to its end, as a run\<close>

text \<open>
  \<open>refreshBranch\<close> is what a run does to a branch that waits for the read of the refresh
  token when its awaits are answered one after the other with nothing in between.
\<close>

lemma exec_advance:
  assumes "pool s = ps @ [ph]"
  shows "exec (Resume (length ps) (replyFor e ph)) s =
     \<lparr>mem = snd (advance e (ph, mem s)), pool = ps @ [fst (advance e (ph, mem s))]\<rparr>"
  using assms by (simp add: exec_def advance_def split: prod.splits)

lemma refreshBranch_as_run:
  assumes "pool s = ps @ [AwaitRead c]"
  shows "\<exists>r1 r2 r3 r4.
     run [Resume (length ps) r1, Resume (length ps) r2, Resume (length ps) r3,
          Resume (length ps) r4] s =
     \<lparr>mem = snd (refreshBranch e c (mem s)), pool = ps @ [fst (refreshBranch e c (mem s))]\<rparr>"
proof -
  define p1 where "p1 = advance e (AwaitRead c, mem s)"
  define p2 where "p2 = advance e p1"
  define p3 where "p3 = advance e p2"
  define p4 where "p4 = advance e p3"
  define s1 where "s1 = exec (Resume (length ps) (replyFor e (AwaitRead c))) s"
  define s2 where "s2 = exec (Resume (length ps) (replyFor e (fst p1))) s1"
  define s3 where "s3 = exec (Resume (length ps) (replyFor e (fst p2))) s2"
  define s4 where "s4 = exec (Resume (length ps) (replyFor e (fst p3))) s3"
  have s1: "s1 = \<lparr>mem = snd p1, pool = ps @ [fst p1]\<rparr>"
    unfolding s1_def p1_def using assms by (rule exec_advance)
  have s2: "s2 = \<lparr>mem = snd p2, pool = ps @ [fst p2]\<rparr>"
    unfolding s2_def p2_def using exec_advance [of s1 ps "fst p1" e] by (simp add: s1)
  have s3: "s3 = \<lparr>mem = snd p3, pool = ps @ [fst p3]\<rparr>"
    unfolding s3_def p3_def using exec_advance [of s2 ps "fst p2" e] by (simp add: s2)
  have s4: "s4 = \<lparr>mem = snd p4, pool = ps @ [fst p4]\<rparr>"
    unfolding s4_def p4_def using exec_advance [of s3 ps "fst p3" e] by (simp add: s3)
  have "p4 = refreshBranch e c (mem s)"
    by (simp add: refreshBranch_def p1_def p2_def p3_def p4_def)
  with s4 have "run [Resume (length ps) (replyFor e (AwaitRead c)),
                     Resume (length ps) (replyFor e (fst p1)),
                     Resume (length ps) (replyFor e (fst p2)),
                     Resume (length ps) (replyFor e (fst p3))] s =
     \<lparr>mem = snd (refreshBranch e c (mem s)), pool = ps @ [fst (refreshBranch e c (mem s))]\<rparr>"
    by (simp add: run_Cons run_Nil s1_def s2_def s3_def s4_def)
  then show ?thesis by blast
qed

subsection \<open>The refresh branch on its two main paths\<close>

lemma refreshBranch_granted:
  assumes "readFault e = None" "refreshReply e = Inr (a, r)" "writeFault e = None"
  shows "refreshBranch e c st =
    (Returned (Retried Api c),
     st\<lparr>store := (store st)(ACCESS_TOKEN \<mapsto> a, REFRESH_TOKEN \<mapsto> r),
        isRefreshing := False,
        failedQueue := [],
        defaultAuth := Some (bearer (Some a)),
        refreshPosts := refreshPosts st @ [store st REFRESH_TOKEN],
        notified := notified st @ map (\<lambda>q. (q, Resolve (Some a))) (failedQueue st)\<rparr>)"
  using assms by (simp add: branch_defs)

lemma refreshBranch_refused:
  assumes "readFault e = None" "refreshReply e = Inl err"
  shows "refreshBranch e c st =
    (case removeFault e of
       None \<Rightarrow> (Returned (Rejected err),
         st\<lparr>store := (store st)(ACCESS_TOKEN := None, REFRESH_TOKEN := None),
            isRefreshing := False,
            failedQueue := [],
            refreshPosts := refreshPosts st @ [store st REFRESH_TOKEN],
            notified := notified st @ map (\<lambda>q. (q, Reject err)) (failedQueue st)\<rparr>)
     | Some err' \<Rightarrow> (Returned (Rejected err'),
         st\<lparr>isRefreshing := False,
            failedQueue := [],
            refreshPosts := refreshPosts st @ [store st REFRESH_TOKEN],
            notified := notified st @ map (\<lambda>q. (q, Reject err)) (failedQueue st)\<rparr>))"
  using assms by (simp add: branch_defs split: option.splits)

lemma refreshBranch_write_fault:
  assumes "readFault e = None" "refreshReply e = Inr (a, r)" "writeFault e = Some err"
    "removeFault e = None"
  shows "refreshBranch e c st =
    (Returned (Rejected err),
     st\<lparr>store := (store st)(ACCESS_TOKEN := None, REFRESH_TOKEN := None),
        isRefreshing := False,
        failedQueue := [],
        refreshPosts := refreshPosts st @ [store st REFRESH_TOKEN],
        notified := notified st @ map (\<lambda>q. (q, Reject err)) (failedQueue st)\<rparr>)"
  using assms by (simp add: branch_defs)

subsection \<open>Only the two token keys are written\<close>

lemma resume_frame:
  "k \<noteq> ACCESS_TOKEN \<Longrightarrow> k \<noteq> REFRESH_TOKEN \<Longrightarrow> store (snd (resume r ph st)) k = store st k"
  by (cases "(r, ph, st)" rule: resume.cases)
     (auto simp: getItem_def multiSet_def multiRemove_def catchBlock_def finallyBlock_def
                 processQueue_def split: option.splits sum.splits)

lemma onRejected_store: "store (snd (onRejected err st)) = store st"
  by (simp add: onRejected_def split: error.splits)

lemma exec_frame:
  assumes "k \<noteq> ACCESS_TOKEN" "k \<noteq> REFRESH_TOKEN"
  shows "store (mem (exec ev s)) k = store (mem s) k"
proof (cases ev)
  case (Response err)
  show ?thesis
    using onRejected_store [of err "mem s"] Response
    by (cases "onRejected err (mem s)") (simp add: exec_def split: handler_result.splits)
next
  case (Resume i r)
  show ?thesis
    using resume_frame [OF assms, of r "pool s ! i" "mem s"] Resume
    by (cases "resume r (pool s ! i) (mem s)") (simp add: exec_def)
qed

lemma run_frame:
  "k \<noteq> ACCESS_TOKEN \<Longrightarrow> k \<noteq> REFRESH_TOKEN \<Longrightarrow> store (mem (run evs s)) k = store (mem s) k"
  by (induction evs arbitrary: s) (simp_all add: run_Nil run_Cons exec_frame)

subsection \<open>Queued callers while the flag is set\<close>

lemma exec_queued:
  "isRefreshing (mem s) \<Longrightarrow> \<not> retry c \<Longrightarrow>
   exec (unauthorized c) s = s\<lparr>mem := (mem s)\<lparr>failedQueue := failedQueue (mem s) @ [c]\<rparr>\<rparr>"
  by (simp add: exec_def unauthorized_def onRejected_def)

lemma exec_first:
  "\<not> isRefreshing (mem s) \<Longrightarrow> \<not> retry c \<Longrightarrow>
   exec (unauthorized c) s =
     \<lparr>mem = (mem s)\<lparr>isRefreshing := True\<rparr>, pool = pool s @ [AwaitRead (c\<lparr>retry := True\<rparr>)]\<rparr>"
  by (simp add: exec_def unauthorized_def onRejected_def)

lemma run_queued:
  "isRefreshing (mem s) \<Longrightarrow> \<forall>c \<in> set cs. \<not> retry c \<Longrightarrow>
   run (map unauthorized cs) s = s\<lparr>mem := (mem s)\<lparr>failedQueue := failedQueue (mem s) @ cs\<rparr>\<rparr>"
proof (induction cs arbitrary: s)
  case Nil
  then show ?case by (simp add: run_Nil)
next
  case (Cons c cs)
  then show ?case by (simp add: run_Cons exec_queued)
qed

subsection \<open>At most one branch in flight\<close>

lemma filter_update_length:
  assumes "i < length xs"
  shows "length (filter P (xs[i := y])) + (if P (xs ! i) then 1 else 0)
       = length (filter P xs) + (if P y then 1 else 0)"
proof -
  have a: "xs[i := y] = take i xs @ y # drop (Suc i) xs"
    using assms by (rule upd_conv_take_nth_drop)
  have b: "xs = take i xs @ xs ! i # drop (Suc i) xs"
    using assms by (rule id_take_nth_drop)
  have "length (filter P xs) = length (filter P (take i xs)) + (if P (xs ! i) then 1 else 0)
      + length (filter P (drop (Suc i) xs))"
    by (subst b) simp
  moreover have "length (filter P (xs[i := y])) =
      length (filter P (take i xs)) + (if P y then 1 else 0)
      + length (filter P (drop (Suc i) xs))"
    by (subst a) simp
  ultimately show ?thesis by simp
qed

lemma resume_flag:
  "suspended ph \<Longrightarrow> resume r ph st = (ph', st') \<Longrightarrow>
   isRefreshing st' = (isRefreshing st \<and> suspended ph')"
  by (cases "(r, ph, st)" rule: resume.cases)
     (auto simp: suspended_def getItem_def multiSet_def multiRemove_def catchBlock_def
                 finallyBlock_def processQueue_def split: option.splits sum.splits)

lemma singleFlight_exec: "singleFlight s \<Longrightarrow> singleFlight (exec ev s)"
proof (cases ev)
  case (Response err)
  assume "singleFlight s"
  then show ?thesis using Response
    by (auto simp: singleFlight_def inFlight_def exec_def onRejected_def suspended_def
             split: error.splits if_splits)
next
  case (Resume i r)
  assume inv: "singleFlight s"
  show ?thesis
  proof (cases "i < length (pool s)")
    case False
    then show ?thesis using inv Resume by (simp add: exec_def)
  next
    case True
    obtain ph' st' where res: "resume r (pool s ! i) (mem s) = (ph', st')"
      by (cases "resume r (pool s ! i) (mem s)")
    have ex: "exec ev s = \<lparr>mem = st', pool = (pool s)[i := ph']\<rparr>"
      using Resume True res by (simp add: exec_def)
    note cnt = filter_update_length [OF True, of suspended ph']
    show ?thesis
    proof (cases "suspended (pool s ! i)")
      case False
      then obtain out where "pool s ! i = Returned out"
        by (cases "pool s ! i") (simp_all add: suspended_def)
      with res have "ph' = pool s ! i" "st' = mem s" by (simp_all add: resume_Returned)
      with ex have "exec ev s = s" by simp
      with inv show ?thesis by simp
    next
      case susp: True
      have "pool s ! i \<in> set (filter suspended (pool s))"
        using True susp by simp
      then have pos: "0 < inFlight s"
        unfolding inFlight_def by (cases "filter suspended (pool s)") auto
      with inv have flag: "isRefreshing (mem s)" and one: "inFlight s = 1"
        by (auto simp: singleFlight_def split: if_splits)
      from resume_flag [OF susp res] flag have "isRefreshing st' = suspended ph'" by simp
      with cnt susp one show ?thesis
        by (auto simp: singleFlight_def inFlight_def ex)
    qed
  qed
qed

lemma singleFlight_run: "singleFlight s \<Longrightarrow> singleFlight (run evs s)"
  by (induction evs arbitrary: s) (simp_all add: run_Nil run_Cons singleFlight_exec)

text \<open>
  From a start with the flag idle and no branch suspended, whatever the events and their
  order, the flag is set exactly while one branch is in flight, and never more than one is.
\<close>

lemma at_most_one_in_flight:
  assumes "\<not> isRefreshing (mem s)" "pool s = []"
  shows "inFlight (run evs s) = (if isRefreshing (mem (run evs s)) then 1 else 0)"
    and "inFlight (run evs s) \<le> 1"
proof -
  from assms have "singleFlight s" by (simp add: singleFlight_def inFlight_def)
  then have inv: "singleFlight (run evs s)" by (rule singleFlight_run)
  then show "inFlight (run evs s) = (if isRefreshing (mem (run evs s)) then 1 else 0)"
    by (simp add: singleFlight_def)
  from inv show "inFlight (run evs s) \<le> 1"
    by (simp add: singleFlight_def split: if_splits)
qed

subsection \<open>One POST per branch at most\<close>

text \<open>
  The POST to the refresh endpoint is issued by one step only, the one that ends the
  read of the refresh token. Once no branch waits for that read, no event adds a POST
  or a branch, as long as every 401 for a request not yet retried arrives while the flag
  is set.
\<close>

lemma resume_not_reading:
  "\<not> reading ph \<Longrightarrow>
   \<not> reading (fst (resume r ph st)) \<and> refreshPosts (snd (resume r ph st)) = refreshPosts st"
  by (cases "(r, ph, st)" rule: resume.cases)
     (auto simp: reading_def getItem_def multiSet_def multiRemove_def catchBlock_def
                 finallyBlock_def processQueue_def split: option.splits sum.splits)

lemma exec_response_while_set:
  assumes "isRefreshing (mem s) \<or> \<not> fresh401 err"
  shows "refreshPosts (mem (exec (Response err) s)) = refreshPosts (mem s) \<and>
         pool (exec (Response err) s) = pool s"
  using assms by (auto simp: exec_def onRejected_def fresh401_def split: error.splits)

lemma exec_resume_not_reading:
  assumes "\<forall>p \<in> set (pool s). \<not> reading p"
  shows "refreshPosts (mem (exec (Resume i r) s)) = refreshPosts (mem s) \<and>
         length (pool (exec (Resume i r) s)) = length (pool s) \<and>
         (\<forall>p \<in> set (pool (exec (Resume i r) s)). \<not> reading p)"
proof (cases "i < length (pool s)")
  case False
  then show ?thesis using assms by (simp add: exec_def)
next
  case True
  then have nr: "\<not> reading (pool s ! i)" using assms by simp
  obtain ph st where res: "resume r (pool s ! i) (mem s) = (ph, st)"
    by (cases "resume r (pool s ! i) (mem s)")
  have ex: "exec (Resume i r) s = \<lparr>mem = st, pool = (pool s)[i := ph]\<rparr>"
    using True res by (simp add: exec_def)
  from resume_not_reading [OF nr, of r "mem s"] res
  have ph: "\<not> reading ph" and posts: "refreshPosts st = refreshPosts (mem s)" by simp_all
  have "set ((pool s)[i := ph]) \<subseteq> insert ph (set (pool s))"
    by (rule set_update_subset_insert)
  with assms ph have "\<forall>p \<in> set ((pool s)[i := ph]). \<not> reading p" by auto
  with posts show ?thesis by (simp add: ex)
qed

lemma run_after_read:
  assumes "\<forall>p \<in> set (pool s). \<not> reading p" and "observedWhileSet evs s"
  shows "refreshPosts (mem (run evs s)) = refreshPosts (mem s) \<and>
         length (pool (run evs s)) = length (pool s)"
  using assms
proof (induction evs arbitrary: s)
  case Nil
  then show ?case by (simp add: run_Nil)
next
  case (Cons ev evs)
  show ?case
  proof (cases ev)
    case (Response err)
    with Cons.prems have flag: "isRefreshing (mem s) \<or> \<not> fresh401 err"
      and rest: "observedWhileSet evs (exec ev s)" by simp_all
    from exec_response_while_set [OF flag] Response
    have same: "refreshPosts (mem (exec ev s)) = refreshPosts (mem s)" "pool (exec ev s) = pool s"
      by simp_all
    with Cons.prems(1) have "\<forall>p \<in> set (pool (exec ev s)). \<not> reading p" by simp
    from Cons.IH [OF this rest] same show ?thesis by (simp add: run_Cons)
  next
    case (Resume i r)
    with Cons.prems have rest: "observedWhileSet evs (exec ev s)" by simp
    from exec_resume_not_reading [OF Cons.prems(1), of i r] Resume
    have same: "refreshPosts (mem (exec ev s)) = refreshPosts (mem s)"
      "length (pool (exec ev s)) = length (pool s)"
      "\<forall>p \<in> set (pool (exec ev s)). \<not> reading p"
      by simp_all
    from Cons.IH [OF same(3) rest] same(1,2) show ?thesis by (simp add: run_Cons)
  qed
qed

section \<open>Single-flight refresh\<close>

text \<open>
  C1, as amended. Starting with the refresh flag idle and no branch waiting for its read,
  let N requests that have not been retried each receive a 401. The first, \<open>c0\<close>, sets
  the flag and starts the one refresh branch; the others, \<open>cs\<close>, arriving before the read
  of the refresh token returns, are only appended to the queue, in arrival order, and no
  POST to the refresh endpoint has been issued yet. A 401 observed in any state in which
  the flag is set only appends its request to the queue. When the read returns, whatever
  follows (\<open>rest\<close>: any answers to the branch and any response errors, each 401 for a
  request not yet retried being observed while the flag is set), no second branch is
  started and the POSTs issued are at most one:
  exactly one, carrying the stored refresh token, when the read succeeded, and none when
  the read failed.
\<close>

theorem single_refresh_for_concurrent_401s:
  assumes idle: "\<not> isRefreshing (mem s)"
    and calm: "\<forall>p \<in> set (pool s). \<not> reading p"
    and fresh: "\<not> retry c0" "\<forall>c \<in> set cs. \<not> retry c"
    and later: "observedWhileSet rest
                  (run (unauthorized c0 # map unauthorized cs @
                        [Resume (length (pool s)) (Storage f)]) s)"
  shows "run (unauthorized c0 # map unauthorized cs) s =
           \<lparr>mem = (mem s)\<lparr>isRefreshing := True, failedQueue := failedQueue (mem s) @ cs\<rparr>,
            pool = pool s @ [AwaitRead (c0\<lparr>retry := True\<rparr>)]\<rparr> \<and>
         (\<forall>t c. isRefreshing (mem t) \<and> \<not> retry c \<longrightarrow>
            exec (unauthorized c) t =
              t\<lparr>mem := (mem t)\<lparr>failedQueue := failedQueue (mem t) @ [c]\<rparr>\<rparr>) \<and>
         refreshPosts (mem (run (unauthorized c0 # map unauthorized cs @
                                 Resume (length (pool s)) (Storage f) # rest) s)) =
           refreshPosts (mem s) @
             (case f of None \<Rightarrow> [store (mem s) REFRESH_TOKEN] | Some err \<Rightarrow> []) \<and>
         length (pool (run (unauthorized c0 # map unauthorized cs @
                            Resume (length (pool s)) (Storage f) # rest) s)) =
           Suc (length (pool s))"
proof -
  define s1 where "s1 = exec (unauthorized c0) s"
  define s2 where "s2 = run (map unauthorized cs) s1"
  define s3 where "s3 = exec (Resume (length (pool s)) (Storage f)) s2"
  have s1: "s1 = \<lparr>mem = (mem s)\<lparr>isRefreshing := True\<rparr>,
                  pool = pool s @ [AwaitRead (c0\<lparr>retry := True\<rparr>)]\<rparr>"
    unfolding s1_def using idle fresh(1) by (rule exec_first)
  have s2: "s2 = s1\<lparr>mem := (mem s1)\<lparr>failedQueue := failedQueue (mem s1) @ cs\<rparr>\<rparr>"
    unfolding s2_def using fresh(2) by (intro run_queued) (simp_all add: s1)
  have before: "run (unauthorized c0 # map unauthorized cs) s =
      \<lparr>mem = (mem s)\<lparr>isRefreshing := True, failedQueue := failedQueue (mem s) @ cs\<rparr>,
       pool = pool s @ [AwaitRead (c0\<lparr>retry := True\<rparr>)]\<rparr>"
    unfolding run_Cons s1_def [symmetric] s2_def [symmetric] by (simp add: s2 s1)
  have queued: "\<forall>t c. isRefreshing (mem t) \<and> \<not> retry c \<longrightarrow>
      exec (unauthorized c) t = t\<lparr>mem := (mem t)\<lparr>failedQueue := failedQueue (mem t) @ [c]\<rparr>\<rparr>"
    by (simp add: exec_queued)
  have s3_posts: "refreshPosts (mem s3) =
      refreshPosts (mem s) @ (case f of None \<Rightarrow> [store (mem s) REFRESH_TOKEN] | Some err \<Rightarrow> [])"
    and s3_pool: "pool s3 = pool s @ [fst (resume (Storage f) (AwaitRead (c0\<lparr>retry := True\<rparr>)) (mem s2))]"
    unfolding s3_def
    by (cases f; simp add: exec_def s2 s1 getItem_def catchBlock_def processQueue_def)+
  have s3_calm: "\<forall>p \<in> set (pool s3). \<not> reading p"
    using calm unfolding s3_pool
    by (cases f) (simp_all add: getItem_def catchBlock_def reading_def)
  have upto: "run (unauthorized c0 # map unauthorized cs @
                   [Resume (length (pool s)) (Storage f)]) s = s3"
    by (simp add: run_Cons run_append run_Nil s1_def s2_def s3_def)
  with later have obs: "observedWhileSet rest s3" by simp
  have whole: "run (unauthorized c0 # map unauthorized cs @
                    Resume (length (pool s)) (Storage f) # rest) s = run rest s3"
    by (simp add: run_Cons run_append s1_def s2_def s3_def)
  from run_after_read [OF s3_calm obs]
  have "refreshPosts (mem (run rest s3)) = refreshPosts (mem s3)"
    and "length (pool (run rest s3)) = length (pool s3)" by simp_all
  with s3_posts s3_pool whole
  have after: "refreshPosts (mem (run (unauthorized c0 # map unauthorized cs @
                                  Resume (length (pool s)) (Storage f) # rest) s)) =
      refreshPosts (mem s) @ (case f of None \<Rightarrow> [store (mem s) REFRESH_TOKEN] | Some err \<Rightarrow> [])"
    and one: "length (pool (run (unauthorized c0 # map unauthorized cs @
                            Resume (length (pool s)) (Storage f) # rest) s)) = Suc (length (pool s))"
    by simp_all
  from before queued after one show ?thesis by blast
qed

text \<open>
  Four requests: \<open>reqA\<close> starts the refresh, \<open>reqB\<close> arrives before the read returns,
  \<open>reqC\<close> while the POST is pending and \<open>reqD\<close> while the new tokens are written. One POST,
  carrying the stored refresh token \<^verbatim>\<open>R1\<close>, and one branch.
\<close>

theorem single_refresh_for_concurrent_401s_witness:
  "\<not> isRefreshing (mem idleSys) \<and> \<not> retry reqA \<and> \<not> retry reqB \<and>
   observedWhileSet
     [unauthorized reqC, Resume 0 (Http (Inr (''A2'', ''R2''))), unauthorized reqD,
      Resume 0 (Storage None)]
     (run (unauthorized reqA # map unauthorized [reqB] @
           [Resume (length (pool idleSys)) (Storage None)]) idleSys) \<and>
   refreshPosts (mem (run (unauthorized reqA # map unauthorized [reqB] @
       Resume (length (pool idleSys)) (Storage None) #
       [unauthorized reqC, Resume 0 (Http (Inr (''A2'', ''R2''))), unauthorized reqD,
        Resume 0 (Storage None)]) idleSys)) = [Some ''R1''] \<and>
   length (pool (run (unauthorized reqA # map unauthorized [reqB] @
       Resume (length (pool idleSys)) (Storage None) #
       [unauthorized reqC, Resume 0 (Http (Inr (''A2'', ''R2''))), unauthorized reqD,
        Resume 0 (Storage None)]) idleSys)) = 1"
proof -
  have h1: "\<not> isRefreshing (mem idleSys)"
    by (simp add: idleSys_def session_def)
  have h2: "\<forall>p \<in> set (pool idleSys). \<not> reading p"
    by (simp add: idleSys_def)
  have h3: "\<not> retry reqA"
    by (simp add: reqA_def)
  have h4: "\<forall>c \<in> set [reqB]. \<not> retry c"
    by (simp add: reqB_def)
  have h5: "observedWhileSet
     [unauthorized reqC, Resume 0 (Http (Inr (''A2'', ''R2''))), unauthorized reqD,
      Resume 0 (Storage None)]
     (run (unauthorized reqA # map unauthorized [reqB] @
           [Resume (length (pool idleSys)) (Storage None)]) idleSys)"
    by (simp add: run_def exec_def unauthorized_def onRejected_def getItem_def multiSet_def
        finallyBlock_def processQueue_def fresh401_def example_defs)
  have v: "pool idleSys = []" "refreshPosts (mem idleSys) = []"
    "store (mem idleSys) REFRESH_TOKEN = Some ''R1''"
    by (simp_all add: example_defs)
  show ?thesis
    using h1 h3 h4 h5 v single_refresh_for_concurrent_401s [OF h1 h2 h3 h4 h5] by simp
qed

text \<open>
  C1 as stated fails when the read of the refresh token is rejected by the store: the
  branch goes to its \<^verbatim>\<open>catch\<close> block before the POST. Three requests receive a 401,
  \<open>reqA\<close> while the flag is idle, \<open>reqB\<close> and \<open>reqC\<close> while it is set; the branch has
  returned, and no call to the refresh endpoint has been made.
\<close>

theorem single_refresh_read_fault_counterexample:
  "refreshPosts (mem (run [unauthorized reqA, unauthorized reqB,
                           Resume 0 (Storage (Some diskError)), unauthorized reqC,
                           Resume 0 (Storage None)] idleSys)) = [] \<and>
   pool (run [unauthorized reqA, unauthorized reqB,
              Resume 0 (Storage (Some diskError)), unauthorized reqC,
              Resume 0 (Storage None)] idleSys) = [Returned (Rejected diskError)]"
  by (simp add: run_def exec_def unauthorized_def onRejected_def getItem_def multiRemove_def
      catchBlock_def finallyBlock_def processQueue_def example_defs)

text \<open>
  A 401 observed after the branch has returned, the flag being idle again, starts a
  refresh of its own: two requests one after the other make two POSTs.
\<close>

lemma refresh_after_refresh:
  "refreshPosts (mem (run [unauthorized reqA, Resume 0 (Storage None),
                           Resume 0 (Http (Inr (''A2'', ''R2''))), Resume 0 (Storage None),
                           unauthorized reqC, Resume 1 (Storage None)] idleSys)) =
     [Some ''R1'', Some ''R2'']"
  by (simp add: run_def exec_def unauthorized_def onRejected_def getItem_def multiSet_def
      finallyBlock_def processQueue_def example_defs)

section \<open>Failure of the refresh\<close>

text \<open>
  C2. After a refused refresh every queued request is to be rejected with the refresh
  error. The \<^verbatim>\<open>catch\<close> block empties the queue (line 87) before it awaits the removal
  of the tokens (line 88), and the flag is reset only after that (line 91); on the way
  through the \<^verbatim>\<open>try\<close> block nothing is awaited between the two. Here \<open>reqA\<close> starts the
  refresh, \<open>reqB\<close> receives its 401 while the POST is pending, the POST is refused, and
  \<open>reqC\<close> receives its 401 while the removal is awaited. When the branch has returned,
  with the tokens removed and the flag idle, \<open>reqB\<close> has been rejected with the refresh
  error, but \<open>reqC\<close> is still in the queue and has been neither rejected nor resolved.
\<close>

theorem request_queued_during_removal_is_left_unsettled:
  "run [unauthorized reqA, Resume 0 (Storage None), unauthorized reqB,
        Resume 0 (Http (Inl expired)), unauthorized reqC, Resume 0 (Storage None)] idleSys =
   \<lparr>mem = session\<lparr>store := (store session)(ACCESS_TOKEN := None, REFRESH_TOKEN := None),
                   failedQueue := [reqC],
                   refreshPosts := [Some ''R1''],
                   notified := [(reqB, Reject expired)]\<rparr>,
    pool = [Returned (Rejected expired)]\<rparr>"
  by (simp add: run_def exec_def unauthorized_def onRejected_def getItem_def multiRemove_def
      catchBlock_def finallyBlock_def processQueue_def example_defs)

text \<open>
  Nothing but a later refresh settles such a request: response errors other than a 401
  that has not been retried, and answers to branches that have returned, leave the
  queue as it is.
\<close>

lemma queue_kept_without_refresh:
  "(\<forall>c. ev \<noteq> unauthorized c) \<or> (\<exists>c. ev = unauthorized c \<and> retry c) \<Longrightarrow>
   \<forall>p \<in> set (pool s). \<not> suspended p \<Longrightarrow>
   failedQueue (mem (exec ev s)) = failedQueue (mem s) \<and> notified (mem (exec ev s)) = notified (mem s)"
proof (cases ev)
  case (Response err)
  assume "(\<forall>c. ev \<noteq> unauthorized c) \<or> (\<exists>c. ev = unauthorized c \<and> retry c)"
  with Response show ?thesis
    by (cases err) (auto simp: exec_def onRejected_def unauthorized_def)
next
  case (Resume i r)
  assume ret: "\<forall>p \<in> set (pool s). \<not> suspended p"
  show ?thesis
  proof (cases "i < length (pool s)")
    case False
    with Resume show ?thesis by (simp add: exec_def)
  next
    case True
    with ret have "\<not> suspended (pool s ! i)" by simp
    then obtain out where "pool s ! i = Returned out"
      by (cases "pool s ! i") (simp_all add: suspended_def)
    with Resume True show ?thesis by (simp add: exec_def resume_Returned)
  qed
qed

text \<open>
  Apart from this, the removal itself may be rejected by the store: then the tokens stay
  stored and the caller is rejected with the error of the removal, as
  \<open>refreshBranch_refused\<close> shows.
\<close>

section \<open>Success of the refresh\<close>




section \<open>The flag after the branch\<close>

text \<open>
  C4. The handler that starts the branch sets the flag. Whatever the environment answers
  (the read of the refresh token, the POST, the write of the new tokens and the removal
  in the \<^verbatim>\<open>catch\<close> block may each succeed or fail), the branch returns, and the flag is
  idle once it has returned. The reset is the last thing the branch does: a step that
  leaves the branch suspended at its next \<^verbatim>\<open>await\<close> leaves the flag as it was, and a
  step with which the branch returns leaves it idle. So in every run from a start with
  the flag idle and no branch suspended, whatever the events and their order, the flag
  is set exactly while a branch is suspended.
\<close>

theorem refresh_flag_always_reset:
  "(\<exists>out. fst (refreshBranch e c st) = Returned out) \<and>
   \<not> isRefreshing (snd (refreshBranch e c st)) \<and>
   (\<forall>t q. \<not> isRefreshing t \<and> \<not> retry q \<longrightarrow>
      onRejected (AxiosError (Some 401) q) t =
        (Refreshing (q\<lparr>retry := True\<rparr>), t\<lparr>isRefreshing := True\<rparr>)) \<and>
   (\<forall>r ph t. suspended ph \<longrightarrow>
      isRefreshing (snd (resume r ph t)) = (isRefreshing t \<and> suspended (fst (resume r ph t)))) \<and>
   (\<forall>s evs. \<not> isRefreshing (mem s) \<and> inFlight s = 0 \<longrightarrow>
      isRefreshing (mem (run evs s)) = (inFlight (run evs s) = 1) \<and> inFlight (run evs s) \<le> 1)"
proof -
  have atomic: "(\<exists>out. fst (refreshBranch e c st) = Returned out) \<and>
      \<not> isRefreshing (snd (refreshBranch e c st))"
    by (cases "readFault e"; cases "refreshReply e"; cases "writeFault e"; cases "removeFault e")
       (auto simp: branch_defs)
  have start: "\<forall>t q. \<not> isRefreshing t \<and> \<not> retry q \<longrightarrow>
      onRejected (AxiosError (Some 401) q) t =
        (Refreshing (q\<lparr>retry := True\<rparr>), t\<lparr>isRefreshing := True\<rparr>)"
    by (simp add: onRejected_def)
  have step: "\<forall>r ph t. suspended ph \<longrightarrow>
      isRefreshing (snd (resume r ph t)) = (isRefreshing t \<and> suspended (fst (resume r ph t)))"
  proof (intro allI impI)
    fix r ph t
    assume "suspended ph"
    then show "isRefreshing (snd (resume r ph t)) =
        (isRefreshing t \<and> suspended (fst (resume r ph t)))"
      using resume_flag [of ph r t "fst (resume r ph t)" "snd (resume r ph t)"] by simp
  qed
  have runs: "\<forall>s evs. \<not> isRefreshing (mem s) \<and> inFlight s = 0 \<longrightarrow>
      isRefreshing (mem (run evs s)) = (inFlight (run evs s) = 1) \<and> inFlight (run evs s) \<le> 1"
  proof (intro allI impI)
    fix s :: sys and evs
    assume "\<not> isRefreshing (mem s) \<and> inFlight s = 0"
    then have "singleFlight s" by (simp add: singleFlight_def)
    then have "singleFlight (run evs s)" by (rule singleFlight_run)
    then show "isRefreshing (mem (run evs s)) = (inFlight (run evs s) = 1) \<and>
        inFlight (run evs s) \<le> 1"
      by (simp add: singleFlight_def split: if_splits)
  qed
  from atomic start step runs show ?thesis by blast
qed

text \<open>
  The refresh is refused while two callers wait: after the step into the \<^verbatim>\<open>catch\<close>
  block, where the removal is awaited, the flag is still set; after the step that ends
  the removal, and at the end of the whole branch, it is idle.
\<close>

theorem refresh_flag_always_reset_witness:
  "suspended (AwaitPost reqA) \<and> suspended (AwaitRemove expired) \<and>
   fst (resume (Http (Inl expired)) (AwaitPost reqA) waiting) = AwaitRemove expired \<and>
   isRefreshing (snd (resume (Http (Inl expired)) (AwaitPost reqA) waiting)) \<and>
   fst (resume (Storage None) (AwaitRemove expired) waiting) = Returned (Rejected expired) \<and>
   \<not> isRefreshing (snd (resume (Storage None) (AwaitRemove expired) waiting)) \<and>
   \<not> isRefreshing (snd (refreshBranch refused reqA waiting))"
proof -
  have h: "suspended (AwaitPost reqA)" "suspended (AwaitRemove expired)"
    by (simp_all add: suspended_def)
  have f: "fst (resume (Http (Inl expired)) (AwaitPost reqA) waiting) = AwaitRemove expired"
    "fst (resume (Storage None) (AwaitRemove expired) waiting) = Returned (Rejected expired)"
    by (simp_all add: catchBlock_def multiRemove_def)
  have w: "isRefreshing waiting"
    by (simp add: waiting_def)
  note all = refresh_flag_always_reset [of refused reqA waiting]
  from all have step: "suspended ph \<Longrightarrow>
      isRefreshing (snd (resume r ph t)) = (isRefreshing t \<and> suspended (fst (resume r ph t)))"
    for r ph t by blast
  from all have idle: "\<not> isRefreshing (snd (refreshBranch refused reqA waiting))"
    by blast
  have a: "isRefreshing (snd (resume (Http (Inl expired)) (AwaitPost reqA) waiting))"
    using step [OF h(1), of "Http (Inl expired)" waiting] f(1) h(2) w by simp
  have b: "\<not> isRefreshing (snd (resume (Storage None) (AwaitRemove expired) waiting))"
    using step [OF h(2), of "Storage None" waiting] f(2) by (simp add: suspended_def)
  from h f a b idle show ?thesis by simp
qed

section \<open>Errors other than 401\<close>

text \<open>
  C5. For a request that fails with anything but a 401 (no response at all, as for a
  timeout or a network failure, or any other HTTP status), the handler rejects with the
  very error it received and leaves the whole state as it was: store, flag, queue and the
  log of refresh calls. As an event of a run it changes nothing and starts no branch.
\<close>

theorem non_401_error_passes_through:
  assumes "status \<noteq> Some 401"
  shows "onRejected (AxiosError status cfg) st = (Propagate (AxiosError status cfg), st) \<and>
         exec (Response (AxiosError status cfg)) s = s"
  using assms by (simp add: exec_def onRejected_def)

theorem non_401_error_passes_through_witness:
  "Some 500 \<noteq> Some (401::nat) \<and>
   onRejected (AxiosError (Some 500) reqA) session = (Propagate (AxiosError (Some 500) reqA), session) \<and>
   exec (Response (AxiosError (Some 500) reqA)) idleSys = idleSys"
proof -
  have h: "Some 500 \<noteq> Some (401::nat)" by simp
  show ?thesis
    using h non_401_error_passes_through [OF h, of reqA session idleSys] by simp
qed

section \<open>Logout\<close>

text \<open>
  C6, as amended. Whenever the POST to the backend settles, so that the removal is
  carried out, whatever happens meanwhile and whether the POST is accepted or fails
  (backend not reached, any transport error), and the store's read of the access token
  and its removal of the two token keys succeed,
  logout resolves and both token keys are absent from the store afterwards; with a
  working store logout never rejects. A failure of the store is not caught: when the
  read fails logout rejects with that error at once and has done nothing, and when the
  removal fails after a settled POST logout rejects with that error and has removed
  nothing.
\<close>

theorem logout_clears_tokens_despite_backend:
  "(\<forall>during result.
      apiPost (logoutRequest (store (mem s) ACCESS_TOKEN)) = (during, Some result) \<longrightarrow>
        fst (logout apiPost None None s) = Some (Inr ()) \<and>
        store (mem (snd (logout apiPost None None s))) ACCESS_TOKEN = None \<and>
        store (mem (snd (logout apiPost None None s))) REFRESH_TOKEN = None) \<and>
   (\<forall>e. fst (logout apiPost None None s) \<noteq> Some (Inl e)) \<and>
   (\<forall>e removal. logout apiPost (Some e) removal s = (Some (Inl e), s)) \<and>
   (\<forall>e during result.
      apiPost (logoutRequest (store (mem s) ACCESS_TOKEN)) = (during, Some result) \<longrightarrow>
        logout apiPost None (Some e) s = (Some (Inl e), run during s))"
  by (cases "apiPost (logoutRequest (store (mem s) ACCESS_TOKEN))")
     (auto simp: logout_def getItem_def multiRemove_def Let_def split: option.splits)

text \<open>The backend cannot be reached and the store works: logout resolves, the tokens are
  gone.\<close>

theorem logout_clears_tokens_despite_backend_witness:
  "unreachable (logoutRequest (store (mem idleSys) ACCESS_TOKEN)) =
     ([Response (AxiosError None (logoutRequest (Some ''A1'')))],
      Some (Inl (AxiosError None (logoutRequest (Some ''A1''))))) \<and>
   fst (logout unreachable None None idleSys) = Some (Inr ()) \<and>
   store (mem (snd (logout unreachable None None idleSys))) ACCESS_TOKEN = None \<and>
   store (mem (snd (logout unreachable None None idleSys))) REFRESH_TOKEN = None \<and>
   logout unreachable (Some diskError) None idleSys = (Some (Inl diskError), idleSys)"
proof -
  have h: "unreachable (logoutRequest (store (mem idleSys) ACCESS_TOKEN)) =
     ([Response (AxiosError None (logoutRequest (Some ''A1'')))],
      Some (Inl (AxiosError None (logoutRequest (Some ''A1'')))))"
    by (simp add: unreachable_def example_defs)
  show ?thesis
    using h logout_clears_tokens_despite_backend [of unreachable idleSys] by simp
qed

text \<open>
  C6 as stated fails when the store itself fails: neither the read before the
  \<^verbatim>\<open>try\<close> block nor the removal after it is guarded. With the backend unreachable,
  logout rejects when the read is rejected, and it rejects when the removal is rejected,
  the access token then being still stored.
\<close>

theorem logout_storage_fault_counterexample:
  "fst (logout unreachable (Some diskError) None idleSys) = Some (Inl diskError) \<and>
   fst (logout unreachable None (Some diskError) idleSys) = Some (Inl diskError) \<and>
   store (mem (snd (logout unreachable None (Some diskError) idleSys))) ACCESS_TOKEN = Some ''A1''"
  by (simp add: logout_def getItem_def multiRemove_def Let_def unreachable_def run_def exec_def
      onRejected_def example_defs)

text \<open>
  The POST of logout may itself be left without a settlement: its 401 arrives while the
  \<^verbatim>\<open>catch\<close> block of another request's refused refresh awaits the removal, so it is
  queued behind the emptied queue. Logout then stays pending and never reaches its own
  removal; its request is still in the queue, unnotified, with the flag idle.
\<close>

lemma logout_request_stranded:
  "fst (logout stranded None None idleSys) = None \<and>
   failedQueue (mem (snd (logout stranded None None idleSys))) = [logoutRequest (Some ''A1'')] \<and>
   notified (mem (snd (logout stranded None None idleSys))) = [] \<and>
   \<not> isRefreshing (mem (snd (logout stranded None None idleSys)))"
  by (simp add: logout_def getItem_def multiRemove_def Let_def stranded_def run_def exec_def
      unauthorized_def onRejected_def catchBlock_def finallyBlock_def processQueue_def
      logoutRequest_def example_defs)

text \<open>
  C10. Whatever happens during the exchange with the backend, whether or not it settles
  and whether or not the store's own operations succeed, logout leaves every key other
  than the two token keys as it found it, in particular the remembered e-mail and the
  remember-me flag.
\<close>

theorem logout_leaves_other_keys:
  "(\<forall>k. k \<noteq> ACCESS_TOKEN \<and> k \<noteq> REFRESH_TOKEN \<longrightarrow>
      store (mem (snd (logout apiPost tokenRead removal s))) k = store (mem s) k) \<and>
   store (mem (snd (logout apiPost tokenRead removal s))) USER_EMAIL = store (mem s) USER_EMAIL \<and>
   store (mem (snd (logout apiPost tokenRead removal s))) REMEMBER_ME = store (mem s) REMEMBER_ME"
proof -
  have frame: "store (mem (snd (logout apiPost tokenRead removal s))) k = store (mem s) k"
    if k: "k \<noteq> ACCESS_TOKEN" "k \<noteq> REFRESH_TOKEN" for k
  proof (cases tokenRead)
    case (Some e)
    then show ?thesis by (simp add: logout_def getItem_def)
  next
    case None
    obtain during posted
      where ex: "apiPost (logoutRequest (store (mem s) ACCESS_TOKEN)) = (during, posted)"
      by (cases "apiPost (logoutRequest (store (mem s) ACCESS_TOKEN))")
    show ?thesis
      using None ex k run_frame [OF k, of during s]
      by (cases removal; cases posted)
         (simp_all add: logout_def getItem_def multiRemove_def Let_def)
  qed
  have "USER_EMAIL \<noteq> ACCESS_TOKEN" "USER_EMAIL \<noteq> REFRESH_TOKEN"
    "REMEMBER_ME \<noteq> ACCESS_TOKEN" "REMEMBER_ME \<noteq> REFRESH_TOKEN"
    by (simp_all add: USER_EMAIL_def REMEMBER_ME_def ACCESS_TOKEN_def REFRESH_TOKEN_def)
  with frame show ?thesis by simp
qed

text \<open>The backend answers the logout request with 401 and the refresh is then refused:
  the tokens go, the remembered e-mail and the flag stay.\<close>

theorem logout_leaves_other_keys_witness:
  "store (mem (snd (logout answers401 None None idleSys))) USER_EMAIL = Some ''a@b.com'' \<and>
   store (mem (snd (logout answers401 None None idleSys))) REMEMBER_ME = Some ''true'' \<and>
   store (mem (snd (logout answers401 None None idleSys))) ACCESS_TOKEN = None"
proof -
  have v: "store (mem idleSys) USER_EMAIL = Some ''a@b.com''"
    "store (mem idleSys) REMEMBER_ME = Some ''true''"
    by (simp_all add: example_defs)
  have a: "store (mem (snd (logout answers401 None None idleSys))) ACCESS_TOKEN = None"
    by (simp add: logout_def getItem_def multiRemove_def Let_def answers401_def)
  show ?thesis
    using v a logout_leaves_other_keys [of answers401 None None idleSys] by simp
qed

section \<open>Bearer token on outgoing requests\<close>





section \<open>Login\<close>

text \<open>
  C8. When login succeeds with the payload \<open>p\<close>, \<open>p\<close> is the payload of the response to
  the POST, the write to the store has succeeded, the store holds the access token of
  \<open>p\<close> under the access-token key and its refresh token under the refresh-token key, and a
  read of the access-token key right after gives exactly the access token of \<open>p\<close>.
\<close>

theorem login_round_trip:
  assumes "login apiPost fault data s = (Some (Inr p), s')"
  shows "snd (apiPost data) = Some (Inr p) \<and> fault = None \<and>
         store (mem s') ACCESS_TOKEN = Some (access_token p) \<and>
         store (mem s') REFRESH_TOKEN = Some (refresh_token p) \<and>
         getItem None (store (mem s')) ACCESS_TOKEN = Inr (Some (access_token p))"
  using assms
  by (cases fault; cases "apiPost data")
     (auto simp: login_def getItem_def multiSet_def ACCESS_TOKEN_def REFRESH_TOKEN_def Let_def
           split: sum.splits option.splits)

theorem login_round_trip_witness:
  "login accepts None credentials idleSys =
     (Some (Inr payload),
      idleSys\<lparr>mem := session\<lparr>store :=
        (store session)(ACCESS_TOKEN \<mapsto> ''A9'', REFRESH_TOKEN \<mapsto> ''R9'')\<rparr>\<rparr>) \<and>
   snd (accepts credentials) = Some (Inr payload) \<and>
   getItem None ((store session)(ACCESS_TOKEN \<mapsto> ''A9'', REFRESH_TOKEN \<mapsto> ''R9'')) ACCESS_TOKEN
     = Inr (Some ''A9'')"
proof -
  have h: "login accepts None credentials idleSys =
     (Some (Inr payload),
      idleSys\<lparr>mem := session\<lparr>store :=
        (store session)(ACCESS_TOKEN \<mapsto> ''A9'', REFRESH_TOKEN \<mapsto> ''R9'')\<rparr>\<rparr>)"
    by (simp add: login_def accepts_def multiSet_def payload_def run_def idleSys_def)
  have p: "access_token payload = ''A9''" "refresh_token payload = ''R9''"
    by (simp_all add: payload_def)
  show ?thesis
    using h p login_round_trip [OF h] by simp
qed

section \<open>Queued requests without a headers object\<close>

text \<open>
  C9. Let \<open>q\<close> wait in the queue when the refresh succeeds with the access token \<open>a\<close>.
  Then \<open>q\<close> is resolved with \<open>a\<close> and issued again through the global \<^verbatim>\<open>axios\<close>. If its
  configuration has no headers object, it is issued again exactly as it was, still
  without headers and so without the new Authorization header; if it has one, the
  header \<^verbatim>\<open>Authorization: Bearer a\<close> is written into it.
\<close>

theorem queued_retry_without_headers:
  assumes "q \<in> set (failedQueue st)"
    and "readFault e = None" "refreshReply e = Inr (a, r)" "writeFault e = None"
  shows "(q, Resolve (Some a)) \<in> set (notified (snd (refreshBranch e c st))) \<and>
         (headers q = None \<longrightarrow> waiterOutcome (q, Resolve (Some a)) = Retried Axios q) \<and>
         (\<forall>h. headers q = Some h \<longrightarrow>
            waiterOutcome (q, Resolve (Some a)) =
              Retried Axios (q\<lparr>headers := Some (h(''Authorization'' \<mapsto> ''Bearer '' @ a))\<rparr>))"
  using assms(1) refreshBranch_granted [OF assms(2-4), of c st]
  by (auto simp: waiterThen_def bearer_def template_def)

theorem queued_retry_without_headers_witness:
  "reqB \<in> set (failedQueue waiting) \<and> headers reqB = None \<and>
   readFault granted = None \<and> refreshReply granted = Inr (''A2'', ''R2'') \<and>
   writeFault granted = None \<and>
   (reqB, Resolve (Some ''A2'')) \<in> set (notified (snd (refreshBranch granted reqA waiting))) \<and>
   waiterOutcome (reqB, Resolve (Some ''A2'')) = Retried Axios reqB"
proof -
  have h0: "reqB \<in> set (failedQueue waiting)"
    by (simp add: waiting_def)
  have h1: "readFault granted = None" and h2: "refreshReply granted = Inr (''A2'', ''R2'')"
    and h3: "writeFault granted = None"
    by (simp_all add: granted_def)
  have n: "headers reqB = None"
    by (simp add: reqB_def)
  show ?thesis
    using h0 h1 h2 h3 n queued_retry_without_headers [OF h0 h1 h2 h3, of reqA] by simp
qed

section \<open>Whole runs with requests arriving during the refresh\<close>

lemma exec_read:
  assumes "pool s = ps @ [AwaitRead c]"
  shows "exec (Resume (length ps) (Storage None)) s =
     \<lparr>mem = (mem s)\<lparr>refreshPosts := refreshPosts (mem s) @ [store (mem s) REFRESH_TOKEN]\<rparr>,
      pool = ps @ [AwaitPost c]\<rparr>"
  using assms by (simp add: exec_def getItem_def)

lemma exec_post_granted:
  assumes "pool s = ps @ [AwaitPost c]"
  shows "exec (Resume (length ps) (Http (Inr (a, r)))) s = s\<lparr>pool := ps @ [AwaitSet c a r]\<rparr>"
  using assms by (simp add: exec_def)

lemma exec_post_refused:
  assumes "pool s = ps @ [AwaitPost c]"
  shows "exec (Resume (length ps) (Http (Inl err))) s =
     \<lparr>mem = processQueue (Some err) None (mem s), pool = ps @ [AwaitRemove err]\<rparr>"
  using assms by (simp add: exec_def catchBlock_def)

lemma exec_write:
  assumes "pool s = ps @ [AwaitSet c a r]"
  shows "exec (Resume (length ps) (Storage None)) s =
     \<lparr>mem = finallyBlock (processQueue None (Some a)
              ((mem s)\<lparr>store := (store (mem s))(ACCESS_TOKEN \<mapsto> a, REFRESH_TOKEN \<mapsto> r),
                       defaultAuth := Some (bearer (Some a))\<rparr>)),
      pool = ps @ [Returned (Retried Api c)]\<rparr>"
  using assms by (simp add: exec_def multiSet_def)

lemma exec_removal:
  assumes "pool s = ps @ [AwaitRemove err]"
  shows "exec (Resume (length ps) (Storage None)) s =
     \<lparr>mem = finallyBlock
              ((mem s)\<lparr>store := (store (mem s))(ACCESS_TOKEN := None, REFRESH_TOKEN := None)\<rparr>),
      pool = ps @ [Returned (Rejected err)]\<rparr>"
  using assms by (simp add: exec_def multiRemove_def)

text \<open>
  The request \<open>c0\<close> receives a 401 while the flag is idle; the requests \<open>cs1\<close>, \<open>cs2\<close> and
  \<open>cs3\<close> receive theirs while the refresh token is read, while the POST is pending and
  while the new tokens are written. One POST is issued; all of them are resolved with
  the new access token, in arrival order, and \<open>c0\<close> is issued again.
\<close>

lemma concurrent_refresh_granted:
  assumes idle: "\<not> isRefreshing (mem s)"
    and fresh: "\<not> retry c0" "\<forall>c \<in> set (cs1 @ cs2 @ cs3). \<not> retry c"
  shows "run (unauthorized c0 # map unauthorized cs1 @
              Resume (length (pool s)) (Storage None) # map unauthorized cs2 @
              Resume (length (pool s)) (Http (Inr (a, r))) # map unauthorized cs3 @
              [Resume (length (pool s)) (Storage None)]) s =
    \<lparr>mem = (mem s)
       \<lparr>store := (store (mem s))(ACCESS_TOKEN \<mapsto> a, REFRESH_TOKEN \<mapsto> r),
        isRefreshing := False,
        failedQueue := [],
        defaultAuth := Some (bearer (Some a)),
        refreshPosts := refreshPosts (mem s) @ [store (mem s) REFRESH_TOKEN],
        notified := notified (mem s) @
          map (\<lambda>q. (q, Resolve (Some a))) (failedQueue (mem s) @ cs1 @ cs2 @ cs3)\<rparr>,
     pool = pool s @ [Returned (Retried Api (c0\<lparr>retry := True\<rparr>))]\<rparr>"
proof -
  define s1 where "s1 = exec (unauthorized c0) s"
  define s2 where "s2 = run (map unauthorized cs1) s1"
  define s3 where "s3 = exec (Resume (length (pool s)) (Storage None)) s2"
  define s4 where "s4 = run (map unauthorized cs2) s3"
  define s5 where "s5 = exec (Resume (length (pool s)) (Http (Inr (a, r)))) s4"
  define s6 where "s6 = run (map unauthorized cs3) s5"
  define s7 where "s7 = exec (Resume (length (pool s)) (Storage None)) s6"
  have s1: "s1 = \<lparr>mem = (mem s)\<lparr>isRefreshing := True\<rparr>,
                  pool = pool s @ [AwaitRead (c0\<lparr>retry := True\<rparr>)]\<rparr>"
    unfolding s1_def using idle fresh(1) by (rule exec_first)
  have s2: "s2 = s1\<lparr>mem := (mem s1)\<lparr>failedQueue := failedQueue (mem s1) @ cs1\<rparr>\<rparr>"
    unfolding s2_def using fresh(2) by (intro run_queued) (simp_all add: s1)
  have s3: "s3 = \<lparr>mem = (mem s2)\<lparr>refreshPosts :=
                           refreshPosts (mem s2) @ [store (mem s2) REFRESH_TOKEN]\<rparr>,
                  pool = pool s @ [AwaitPost (c0\<lparr>retry := True\<rparr>)]\<rparr>"
    unfolding s3_def by (rule exec_read) (simp add: s2 s1)
  have s4: "s4 = s3\<lparr>mem := (mem s3)\<lparr>failedQueue := failedQueue (mem s3) @ cs2\<rparr>\<rparr>"
    unfolding s4_def using fresh(2) by (intro run_queued) (simp_all add: s3 s2 s1)
  have s5: "s5 = s4\<lparr>pool := pool s @ [AwaitSet (c0\<lparr>retry := True\<rparr>) a r]\<rparr>"
    unfolding s5_def by (rule exec_post_granted) (simp add: s4 s3)
  have s6: "s6 = s5\<lparr>mem := (mem s5)\<lparr>failedQueue := failedQueue (mem s5) @ cs3\<rparr>\<rparr>"
    unfolding s6_def using fresh(2) by (intro run_queued) (simp_all add: s5 s4 s3 s2 s1)
  have s7: "s7 = \<lparr>mem = finallyBlock (processQueue None (Some a)
              ((mem s6)\<lparr>store := (store (mem s6))(ACCESS_TOKEN \<mapsto> a, REFRESH_TOKEN \<mapsto> r),
                        defaultAuth := Some (bearer (Some a))\<rparr>)),
      pool = pool s @ [Returned (Retried Api (c0\<lparr>retry := True\<rparr>))]\<rparr>"
    unfolding s7_def by (rule exec_write) (simp add: s6 s5)
  have "run (unauthorized c0 # map unauthorized cs1 @
              Resume (length (pool s)) (Storage None) # map unauthorized cs2 @
              Resume (length (pool s)) (Http (Inr (a, r))) # map unauthorized cs3 @
              [Resume (length (pool s)) (Storage None)]) s = s7"
    by (simp add: run_Cons run_append run_Nil s1_def s2_def s3_def s4_def s5_def s6_def s7_def)
  then show ?thesis
    by (simp add: s7 s6 s5 s4 s3 s2 s1 finallyBlock_def processQueue_def)
qed

text \<open>
  The same when the refresh is refused with \<open>err\<close>, the requests \<open>cs3\<close> now receiving their
  401 while the tokens are removed. The \<^verbatim>\<open>catch\<close> block has emptied the queue before it
  awaits the removal, and the flag is reset only after it: \<open>cs1\<close> and \<open>cs2\<close> are rejected
  with \<open>err\<close>, whereas \<open>cs3\<close> are queued behind the emptied queue and are still there, neither
  rejected nor issued again, when the branch has returned and the flag is idle.
\<close>

lemma concurrent_refresh_refused:
  assumes idle: "\<not> isRefreshing (mem s)"
    and fresh: "\<not> retry c0" "\<forall>c \<in> set (cs1 @ cs2 @ cs3). \<not> retry c"
  shows "run (unauthorized c0 # map unauthorized cs1 @
              Resume (length (pool s)) (Storage None) # map unauthorized cs2 @
              Resume (length (pool s)) (Http (Inl err)) # map unauthorized cs3 @
              [Resume (length (pool s)) (Storage None)]) s =
    \<lparr>mem = (mem s)
       \<lparr>store := (store (mem s))(ACCESS_TOKEN := None, REFRESH_TOKEN := None),
        isRefreshing := False,
        failedQueue := cs3,
        refreshPosts := refreshPosts (mem s) @ [store (mem s) REFRESH_TOKEN],
        notified := notified (mem s) @
          map (\<lambda>q. (q, Reject err)) (failedQueue (mem s) @ cs1 @ cs2)\<rparr>,
     pool = pool s @ [Returned (Rejected err)]\<rparr>"
proof -
  define s1 where "s1 = exec (unauthorized c0) s"
  define s2 where "s2 = run (map unauthorized cs1) s1"
  define s3 where "s3 = exec (Resume (length (pool s)) (Storage None)) s2"
  define s4 where "s4 = run (map unauthorized cs2) s3"
  define s5 where "s5 = exec (Resume (length (pool s)) (Http (Inl err))) s4"
  define s6 where "s6 = run (map unauthorized cs3) s5"
  define s7 where "s7 = exec (Resume (length (pool s)) (Storage None)) s6"
  have s1: "s1 = \<lparr>mem = (mem s)\<lparr>isRefreshing := True\<rparr>,
                  pool = pool s @ [AwaitRead (c0\<lparr>retry := True\<rparr>)]\<rparr>"
    unfolding s1_def using idle fresh(1) by (rule exec_first)
  have s2: "s2 = s1\<lparr>mem := (mem s1)\<lparr>failedQueue := failedQueue (mem s1) @ cs1\<rparr>\<rparr>"
    unfolding s2_def using fresh(2) by (intro run_queued) (simp_all add: s1)
  have s3: "s3 = \<lparr>mem = (mem s2)\<lparr>refreshPosts :=
                           refreshPosts (mem s2) @ [store (mem s2) REFRESH_TOKEN]\<rparr>,
                  pool = pool s @ [AwaitPost (c0\<lparr>retry := True\<rparr>)]\<rparr>"
    unfolding s3_def by (rule exec_read) (simp add: s2 s1)
  have s4: "s4 = s3\<lparr>mem := (mem s3)\<lparr>failedQueue := failedQueue (mem s3) @ cs2\<rparr>\<rparr>"
    unfolding s4_def using fresh(2) by (intro run_queued) (simp_all add: s3 s2 s1)
  have s5: "s5 = \<lparr>mem = processQueue (Some err) None (mem s4),
                  pool = pool s @ [AwaitRemove err]\<rparr>"
    unfolding s5_def by (rule exec_post_refused) (simp add: s4 s3)
  have s6: "s6 = s5\<lparr>mem := (mem s5)\<lparr>failedQueue := failedQueue (mem s5) @ cs3\<rparr>\<rparr>"
    unfolding s6_def using fresh(2)
    by (intro run_queued) (simp_all add: s5 s4 s3 s2 s1 processQueue_def)
  have s7: "s7 = \<lparr>mem = finallyBlock ((mem s6)\<lparr>store :=
                (store (mem s6))(ACCESS_TOKEN := None, REFRESH_TOKEN := None)\<rparr>),
      pool = pool s @ [Returned (Rejected err)]\<rparr>"
    unfolding s7_def by (rule exec_removal) (simp add: s6 s5)
  have "run (unauthorized c0 # map unauthorized cs1 @
              Resume (length (pool s)) (Storage None) # map unauthorized cs2 @
              Resume (length (pool s)) (Http (Inl err)) # map unauthorized cs3 @
              [Resume (length (pool s)) (Storage None)]) s = s7"
    by (simp add: run_Cons run_append run_Nil s1_def s2_def s3_def s4_def s5_def s6_def s7_def)
  then show ?thesis
    by (simp add: s7 s6 s5 s4 s3 s2 s1 finallyBlock_def processQueue_def)
qed

end
